theory Spec2Isabelle
  imports Complex_Main "HOL-Library.Multiset" "HOL-Library.Product_Lexorder" "HOL-Library.Sublist"
begin

section \<open>Values and failures of the notebooks' helper functions\<close>

text \<open>
  The helpers verified here are \<^verbatim>\<open>precision_at_n\<close> and
  \<^verbatim>\<open>custom_average_precision\<close> (notebook
  \<^verbatim>\<open>Evaluating_Anomaly_Detection_student.ipynb\<close>), the adjusted-score expression
  of the same notebook, and \<^verbatim>\<open>cusum\<close> (the time-series notebook).

  Python floats are modelled by \<^typ>\<open>real\<close>: comparisons are exact, rounding is
  abstracted away. A Python boolean label is the number it is in Python
  (\<^verbatim>\<open>True == 1\<close>, \<^verbatim>\<open>False == 0\<close>), so a list of boolean labels
  \<open>bs\<close> is passed as \<^term>\<open>map of_bool bs :: real list\<close>; the notebook itself
  passes \<^verbatim>\<open>np.array([1, 0, 1, 0])\<close>.

  \<open>InvalidArgument\<close> and \<open>DivisionUndefined\<close> are the two failure conditions the
  specification names; \<open>DivisionUndefined\<close> is what Python's
  \<^verbatim>\<open>ZeroDivisionError\<close> is in those terms. \<open>IndexError\<close> and \<open>ValueError\<close> are
  the exceptions that the numpy operations used by \<^verbatim>\<open>custom_average_precision\<close>
  can raise.
\<close>

datatype error = InvalidArgument | DivisionUndefined | IndexError | ValueError

text \<open>
  A numpy \<^verbatim>\<open>float64\<close> result: division by zero does not raise, it yields
  \<^verbatim>\<open>nan\<close> or an infinity (with a warning only).
\<close>

datatype npfloat = Finite real | NaN | PosInf | NegInf

definition np_divide :: "real \<Rightarrow> real \<Rightarrow> npfloat" where
  "np_divide x y =
     (if y = 0 then (if x = 0 then NaN else if 0 < x then PosInf else NegInf)
      else Finite (x / y))"

text \<open>
  Elementwise product of two one-dimensional numpy arrays: equal shapes multiply
  pointwise, a one-element array is broadcast, any other pair of shapes raises
  \<^verbatim>\<open>ValueError\<close>.
\<close>

definition np_multiply :: "real list \<Rightarrow> real list \<Rightarrow> error + real list" where
  "np_multiply xs ys =
     (if length xs = length ys then Inr (map2 (*) xs ys)
      else if length xs = 1 then Inr (map ((*) (hd xs)) ys)
      else if length ys = 1 then Inr (map (\<lambda>x. x * hd ys) xs)
      else Inl ValueError)"

section \<open>Precision at n\<close>

text \<open>
  \<^verbatim>\<open>
  def precision_at_n(y_is_anomaly_true, y_scores, n_max = 0):
      if not n_max:
          n_max = len(y_scores)
      is_anomaly_sorted_by_score = [is_anomaly for _,
                                    is_anomaly in sorted(zip(y_scores, y_is_anomaly_true))]
      return [sum(is_anomaly_sorted_by_score[:n])/n for n in range(1, n_max+1)]
  \<close>
  \<^verbatim>\<open>zip\<close> stops at the shorter list, as \<^const>\<open>zip\<close> does. \<^verbatim>\<open>sorted\<close>
  compares the (score, label) tuples lexicographically, which is the order of
  \<^typ>\<open>real \<times> real\<close> here; the sorted arrangement of a list under a total order on
  whole elements is unique, so \<^const>\<open>sort\<close> returns what \<^verbatim>\<open>sorted\<close> returns.
  A slice \<^verbatim>\<open>[:n]\<close> with \<open>n \<ge> 1\<close> is \<^const>\<open>take\<close>, and the divisor \<open>n\<close>
  starts at 1.
\<close>

definition sorted_scores_and_truth :: "real list \<Rightarrow> real list \<Rightarrow> (real \<times> real) list" where
  "sorted_scores_and_truth y_is_anomaly_true y_scores = sort (zip y_scores y_is_anomaly_true)"

definition is_anomaly_sorted_by_score :: "real list \<Rightarrow> real list \<Rightarrow> real list" where
  "is_anomaly_sorted_by_score y_is_anomaly_true y_scores =
     map snd (sorted_scores_and_truth y_is_anomaly_true y_scores)"

definition precision_at_n :: "real list \<Rightarrow> real list \<Rightarrow> int \<Rightarrow> real list" where
  "precision_at_n y_is_anomaly_true y_scores n_max0 =
     (let n_max = (if n_max0 = 0 then int (length y_scores) else n_max0);
          s = is_anomaly_sorted_by_score y_is_anomaly_true y_scores
      in map (\<lambda>n. sum_list (take (nat n) s) / of_int n) [1..n_max])"

text \<open>
  The function has no \<^verbatim>\<open>raise\<close> and none of its operations fails on lists of
  numbers, so a call always yields a value.
\<close>

definition precision_at_n_call :: "real list \<Rightarrow> real list \<Rightarrow> int \<Rightarrow> error + real list" where
  "precision_at_n_call y_is_anomaly_true y_scores n_max =
     Inr (precision_at_n y_is_anomaly_true y_scores n_max)"

section \<open>Average precision\<close>

text \<open>
  \<^verbatim>\<open>
  def custom_average_precision(y_is_anomaly_true, y_scores):
      sorted_scores_and_truth = np.array([(score, is_anomaly)
                                          for score, is_anomaly in
                                          sorted(zip(y_scores, y_is_anomaly_true))])
      scores, is_anomaly = sorted_scores_and_truth[:, 0], sorted_scores_and_truth[:, 1]
      p_at_n = np.array(precision_at_n(is_anomaly, y_scores))
      return (is_anomaly * p_at_n).sum() / is_anomaly.sum()
  \<close>
  An empty list of pairs gives a one-dimensional empty array, on which the
  two-dimensional index \<^verbatim>\<open>[:, 0]\<close> raises \<^verbatim>\<open>IndexError\<close>. The call of
  \<^verbatim>\<open>precision_at_n\<close> receives the labels in sorted order together with the scores
  in their original order \<^verbatim>\<open>y_scores\<close>; the sorted scores \<^verbatim>\<open>scores\<close> are
  bound and not used.
\<close>

definition custom_average_precision :: "real list \<Rightarrow> real list \<Rightarrow> error + npfloat" where
  "custom_average_precision y_is_anomaly_true y_scores =
     (let pairs = sorted_scores_and_truth y_is_anomaly_true y_scores
      in if pairs = [] then Inl IndexError
         else
           let scores = map fst pairs;
               is_anomaly = map snd pairs;
               p_at_n = precision_at_n is_anomaly y_scores 0
           in case np_multiply is_anomaly p_at_n of
                Inl e \<Rightarrow> Inl e
              | Inr prods \<Rightarrow> Inr (np_divide (sum_list prods) (sum_list is_anomaly)))"

text \<open>
  The specification's average precision, from its words: the sum of P@n over the ranks (in
  ascending score order) that hold a true anomaly, divided by the number of anomalies.
\<close>

definition spec_average_precision :: "bool list \<Rightarrow> real list \<Rightarrow> real" where
  "spec_average_precision labels scores =
     (let ranked = map snd (sort (zip scores labels));
          p = precision_at_n (map of_bool labels) scores 0
      in sum_list (map snd (filter fst (zip ranked p))) / real (length (filter id labels)))"

section \<open>Adjusted score\<close>



section \<open>CUSUM\<close>

text \<open>
  \<^verbatim>\<open>
  def cusum(data, mean, shift, threshold):
      high_sum = 0.0
      low_sum = 0.0
      anomalies = []
      high_sum_final = []
      low_sum_final = []
      index_names = data.index
      data_values = data.values
      for index, item in enumerate(data_values):
          high_sum = max(0, high_sum + item - mean - shift)
          low_sum = min(0, low_sum + item - mean + shift)
          high_sum_final.append(high_sum)
          low_sum_final.append(low_sum)
          if high_sum > threshold or low_sum < -threshold:
              anomalies.append((index_names[index], item.tolist()))
      cusum = data
      cusum = cusum.assign(High_Cusum=high_sum_final, Low_Cusum=low_sum_final)
      return cusum, anomalies
  \<close>
  The data frame has one data column: a row is its index label and its value, and
  \<^verbatim>\<open>item.tolist()\<close> is the one-element list of that value. The returned frame has
  the two new columns beside the data: a row \<open>(index, value, High_Cusum, Low_Cusum)\<close>.
\<close>

record 'i cusum_state =
  high_sum :: real
  low_sum :: real
  anomalies :: "('i \<times> real list) list"
  high_sum_final :: "real list"
  low_sum_final :: "real list"

definition cusum_init :: "'i cusum_state" where
  "cusum_init = \<lparr>high_sum = 0, low_sum = 0, anomalies = [], high_sum_final = [], low_sum_final = []\<rparr>"

definition cusum_step :: "real \<Rightarrow> real \<Rightarrow> real \<Rightarrow> 'i cusum_state \<Rightarrow> 'i \<times> real \<Rightarrow> 'i cusum_state" where
  "cusum_step mean shift threshold st row =
     (let item = snd row;
          high = max 0 (high_sum st + item - mean - shift);
          low = min 0 (low_sum st + item - mean + shift)
      in \<lparr>high_sum = high,
          low_sum = low,
          anomalies = (if high > threshold \<or> low < - threshold
                       then anomalies st @ [(fst row, [item])] else anomalies st),
          high_sum_final = high_sum_final st @ [high],
          low_sum_final = low_sum_final st @ [low]\<rparr>)"

definition cusum_loop :: "real \<Rightarrow> real \<Rightarrow> real \<Rightarrow> ('i \<times> real) list \<Rightarrow> 'i cusum_state" where
  "cusum_loop mean shift threshold data = foldl (cusum_step mean shift threshold) cusum_init data"

definition assign_cusum :: "('i \<times> real) list \<Rightarrow> real list \<Rightarrow> real list \<Rightarrow> ('i \<times> real \<times> real \<times> real) list" where
  "assign_cusum data highs lows = map2 (\<lambda>row hl. (fst row, snd row, fst hl, snd hl)) data (zip highs lows)"

definition cusum :: "('i \<times> real) list \<Rightarrow> real \<Rightarrow> real \<Rightarrow> real \<Rightarrow>
    ('i \<times> real \<times> real \<times> real) list \<times> ('i \<times> real list) list" where
  "cusum data mean shift threshold =
     (let st = cusum_loop mean shift threshold data
      in (assign_cusum data (high_sum_final st) (low_sum_final st), anomalies st))"

text \<open>
  The function has no \<^verbatim>\<open>raise\<close> and checks none of its arguments, so a call on a
  one-column series always yields a value.
\<close>

definition cusum_call :: "('i \<times> real) list \<Rightarrow> real \<Rightarrow> real \<Rightarrow> real \<Rightarrow>
    error + ('i \<times> real \<times> real \<times> real) list \<times> ('i \<times> real list) list" where
  "cusum_call data mean shift threshold = Inr (cusum data mean shift threshold)"

text \<open>
  The specification's running sums, from its words: both sums start at 0 and, for each
  point in time order, \<open>high_sum = max(0, high_sum + value - mean - shift)\<close> and
  \<open>low_sum = min(0, low_sum + value - mean + shift)\<close>; a point is an anomaly if, at
  that point, \<open>high_sum > threshold\<close> or \<open>low_sum < -threshold\<close>.
\<close>

fun spec_running_sums :: "real \<Rightarrow> real \<Rightarrow> real \<Rightarrow> real \<Rightarrow> real list \<Rightarrow> (real \<times> real) list" where
  "spec_running_sums mean shift h l [] = []"
| "spec_running_sums mean shift h l (v # vs) =
     (let h' = max 0 (h + v - mean - shift);
          l' = min 0 (l + v - mean + shift)
      in (h', l') # spec_running_sums mean shift h' l' vs)"

definition spec_is_anomaly :: "real \<Rightarrow> real \<times> real \<Rightarrow> bool" where
  "spec_is_anomaly threshold hl \<longleftrightarrow> fst hl > threshold \<or> snd hl < - threshold"

text \<open>The entry that the loop appends to \<^verbatim>\<open>anomalies\<close> for a flagged row.\<close>

definition anomaly_entry :: "'i \<times> real \<Rightarrow> 'i \<times> real list" where
  "anomaly_entry row = (fst row, [snd row])"

section \<open>Properties of precision at n\<close>

lemma length_precision_at_n:
  "length (precision_at_n labels scores n_max) = (if n_max = 0 then length scores else nat n_max)"
  by (simp add: precision_at_n_def Let_def)

lemma zip_take_min:
  "zip (take (min (length ys) (length xs)) xs) (take (min (length ys) (length xs)) ys) = zip xs ys"
proof (induction xs arbitrary: ys)
  case Nil
  then show ?case by simp
next
  case (Cons x xs)
  then show ?case by (cases ys) simp_all
qed

text \<open>
  Claim C2, as the code has it: \<^verbatim>\<open>precision_at_n\<close> never fails. Lists of different
  lengths are cut to the shorter one by \<^verbatim>\<open>zip\<close> (the default \<open>n_max\<close> still being
  the length of the scores); the result has \<open>n_max\<close> entries when \<open>n_max\<close> is positive,
  also beyond the length of the input, and none when \<open>n_max\<close> is negative.
\<close>

theorem precision_at_n_never_fails:
  "precision_at_n_call labels scores n_max =
     Inr (precision_at_n (take (min (length labels) (length scores)) labels)
                         (take (min (length labels) (length scores)) scores)
                         (if n_max = 0 then int (length scores) else n_max))
   \<and> length (precision_at_n labels scores n_max) = (if n_max = 0 then length scores else nat n_max)"
  using zip_take_min [of labels scores]
  apply (simp add: precision_at_n_call_def length_precision_at_n)
  apply (simp add: precision_at_n_def is_anomaly_sorted_by_score_def sorted_scores_and_truth_def Let_def)
  done

text \<open>
  Claim C2 as stated fails: the call returns a value for labels shorter than the scores,
  for \<open>n_max\<close> beyond the length, and for a negative \<open>n_max\<close>.
\<close>

theorem precision_at_n_invalid_counterexample:
  "precision_at_n_call [1] [1, 2] 0 = Inr [1, 1 / 2]
   \<and> precision_at_n_call [1, 0] [1, 2] 3 = Inr [1, 1 / 2, 1 / 3]
   \<and> precision_at_n_call [1, 0] [1, 2] (- 1) = Inr []"
  by (simp add: precision_at_n_call_def precision_at_n_def is_anomaly_sorted_by_score_def
      sorted_scores_and_truth_def upto.simps)

subsection \<open>Ranking\<close>

lemma nth_precision_at_n:
  assumes "1 \<le> n" and "n \<le> (if n_max = 0 then int (length scores) else n_max)"
  shows "precision_at_n labels scores n_max ! nat (n - 1) =
           sum_list (take (nat n) (is_anomaly_sorted_by_score labels scores)) / of_int n"
proof -
  let ?N = "if n_max = 0 then int (length scores) else n_max"
  have "nat (n - 1) < length [1..?N]" using assms by simp
  moreover have "[1..?N] ! nat (n - 1) = n" using assms by simp
  ultimately show ?thesis
    by (simp add: precision_at_n_def Let_def del: length_upto)
qed

lemma sum_list_of_bool:
  "sum_list (map (\<lambda>x. of_bool (P x)) xs) = (real (length (filter P xs)))"
  by (induction xs) simp_all

lemma ranked_labels:
  fixes ps :: "(real \<times> bool) list"
  assumes "mset ps = mset (zip scores labels)" and "sorted ps"
  shows "sorted_scores_and_truth (map of_bool labels) scores = map (\<lambda>p. (fst p, of_bool (snd p))) ps"
proof -
  let ?f = "\<lambda>p::real \<times> bool. (fst p, of_bool (snd p) :: real)"
  have zip: "zip scores (map of_bool labels) = map ?f (zip scores labels)"
    by (simp add: zip_map2 case_prod_unfold)
  have "mset (map ?f ps) = mset (map ?f (zip scores labels))"
    using assms(1) by simp
  moreover have "sorted (map ?f ps)"
  proof -
    have "sorted_wrt (\<lambda>x y. ?f x \<le> ?f y) ps"
      by (rule sorted_wrt_mono_rel [OF _ assms(2)]) (auto simp: less_eq_prod_def)
    then show ?thesis by (simp add: sorted_map)
  qed
  ultimately have "sort (map ?f (zip scores labels)) = map ?f ps"
    by (rule properties_for_sort)
  then show ?thesis
    by (simp add: sorted_scores_and_truth_def zip)
qed

lemma precision_at_n_count:
  fixes ps :: "(real \<times> bool) list"
  assumes "mset ps = mset (zip scores labels)" and "sorted ps"
    and "1 \<le> n" and "n \<le> (if n_max = 0 then int (length scores) else n_max)"
  shows "precision_at_n (map of_bool labels) scores n_max ! nat (n - 1) =
           real (length (filter snd (take (nat n) ps))) / of_int n"
proof -
  have "is_anomaly_sorted_by_score (map of_bool labels) scores = map (\<lambda>p. of_bool (snd p)) ps"
    by (simp add: is_anomaly_sorted_by_score_def ranked_labels [OF assms(1,2)] comp_def)
  then have "sum_list (take (nat n) (is_anomaly_sorted_by_score (map of_bool labels) scores)) =
             real (length (filter snd (take (nat n) ps)))"
    by (simp add: take_map sum_list_of_bool)
  with nth_precision_at_n [OF assms(3,4)] show ?thesis by simp
qed

text \<open>
  Claim C3: let \<open>ps\<close> be the (score, label) pairs in ascending order (the order of the
  tuples, hence ascending by score). For every \<open>n\<close> from 1 to \<open>n_max\<close> (the full
  length when \<open>n_max\<close> is 0) the \<open>n\<close>-th element of the result is the number of true
  labels among the first \<open>n\<close> entries of \<open>ps\<close>, divided by \<open>n\<close>. On the scores
  \<open>[-0.03598, -0.033510, -0.005384, 0.000330]\<close> with labels
  \<open>[True, False, True, False]\<close> the result is \<open>[1, 1/2, 2/3, 1/2]\<close>.
\<close>

theorem precision_at_n_ranked:
  fixes ps :: "(real \<times> bool) list"
  assumes "length labels = length scores"
    and "mset ps = mset (zip scores labels)" and "sorted ps"
    and "1 \<le> n" and "n \<le> (if n_max = 0 then int (length scores) else n_max)"
  shows "sorted (map fst ps)
    \<and> precision_at_n (map of_bool labels) scores n_max ! nat (n - 1) =
           real (length (filter snd (take (nat n) ps))) / of_int n
    \<and> precision_at_n (map of_bool [True, False, True, False])
         [- 0.03598, - 0.033510, - 0.005384, 0.000330] 0 = [1, 1 / 2, 2 / 3, 1 / 2]"
proof -
  have "sorted_wrt (\<lambda>x y. fst x \<le> fst y) ps"
    by (rule sorted_wrt_mono_rel [OF _ assms(3)]) (auto simp: less_eq_prod_def)
  then have "sorted (map fst ps)" by (simp add: sorted_map)
  moreover have "precision_at_n (map of_bool [True, False, True, False])
         [- 0.03598, - 0.033510, - 0.005384, 0.000330] 0 = [1, 1 / 2, 2 / 3, 1 / 2]"
    by (simp add: precision_at_n_def is_anomaly_sorted_by_score_def sorted_scores_and_truth_def upto.simps)
  ultimately show ?thesis
    using precision_at_n_count [OF assms(2-5)] by simp
qed

theorem precision_at_n_ranked_witness:
  "mset [(1::real, True), (2, True), (3, False)] = mset (zip [3, 1, 2] [False, True, True])
   \<and> sorted [(1::real, True), (2, True), (3, False)]
   \<and> precision_at_n (map of_bool [False, True, True]) [3, 1, 2] 0 ! nat (2 - 1)
       = real (length (filter snd (take (nat 2) [(1::real, True), (2, True), (3, False)]))) / of_int 2
   \<and> precision_at_n (map of_bool [False, True, True]) [3, 1, 2] 0 = [1, 1, 2 / 3]"
proof -
  have h1: "length [False, True, True] = length [3::real, 1, 2]" by simp
  have h2: "mset [(1::real, True), (2, True), (3, False)] = mset (zip [3, 1, 2] [False, True, True])"
    by simp
  have h3: "sorted [(1::real, True), (2, True), (3, False)]" by simp
  have h4: "(1::int) \<le> 2" by simp
  have h5: "(2::int) \<le> (if (0::int) = 0 then int (length [3::real, 1, 2]) else 0)" by simp
  have "precision_at_n (map of_bool [False, True, True]) [3, 1, 2] 0 = [1, 1, 2 / 3]"
    by (simp add: precision_at_n_def is_anomaly_sorted_by_score_def sorted_scores_and_truth_def upto.simps)
  with precision_at_n_ranked [OF h1 h2 h3 h4 h5] h2 h3 show ?thesis by blast
qed

lemma sum_list_unit_bounds:
  fixes xs :: "real list"
  assumes "\<forall>x \<in> set xs. 0 \<le> x \<and> x \<le> 1"
  shows "0 \<le> sum_list xs \<and> sum_list xs \<le> real (length xs)"
  using assms by (induction xs) auto

lemma is_anomaly_sorted_unit:
  "\<forall>x \<in> set (is_anomaly_sorted_by_score (map of_bool labels) scores). 0 \<le> x \<and> x \<le> 1"
proof
  fix x assume "x \<in> set (is_anomaly_sorted_by_score (map of_bool labels) scores)"
  then have "x \<in> snd ` set (zip scores (map of_bool labels))"
    by (simp add: is_anomaly_sorted_by_score_def sorted_scores_and_truth_def)
  then have "x \<in> set (map of_bool labels)"
    by (auto dest: set_zip_rightD)
  then show "0 \<le> x \<and> x \<le> 1" by auto
qed

text \<open>
  Claim C4, as the code has it: the result has \<open>n_max\<close> elements when \<open>n_max\<close> is
  positive, as many as there are scores when \<open>n_max\<close> is 0, and none when \<open>n_max\<close> is
  negative; every element lies in the closed interval from 0 to 1.
\<close>

theorem precision_at_n_length_range:
  assumes "length labels = length scores"
  shows "length (precision_at_n (map of_bool labels) scores n_max) =
           (if n_max = 0 then length scores else nat n_max)
    \<and> (\<forall>x \<in> set (precision_at_n (map of_bool labels) scores n_max). 0 \<le> x \<and> x \<le> 1)"
proof -
  let ?s = "is_anomaly_sorted_by_score (map of_bool labels) scores"
  have "0 \<le> x \<and> x \<le> 1" if "x \<in> set (precision_at_n (map of_bool labels) scores n_max)" for x
  proof -
    from that obtain n :: int where n: "1 \<le> n" and x: "x = sum_list (take (nat n) ?s) / of_int n"
      by (auto simp: precision_at_n_def Let_def)
    have "\<forall>y \<in> set (take (nat n) ?s). 0 \<le> y \<and> y \<le> 1"
      using is_anomaly_sorted_unit [of labels scores] by (meson in_set_takeD)
    from sum_list_unit_bounds [OF this]
    have b: "0 \<le> sum_list (take (nat n) ?s)" "sum_list (take (nat n) ?s) \<le> real (length (take (nat n) ?s))"
      by simp_all
    have "real (length (take (nat n) ?s)) \<le> of_int n"
      using n by simp
    with b have "sum_list (take (nat n) ?s) \<le> of_int n" by linarith
    with b(1) n show ?thesis by (simp add: x)
  qed
  then show ?thesis by (simp add: length_precision_at_n)
qed

theorem precision_at_n_length_range_witness:
  "length [False, True, True] = length [3::real, 1, 2]
   \<and> length (precision_at_n (map of_bool [False, True, True]) [3, 1, 2] 2) = 2
   \<and> 0 \<le> precision_at_n (map of_bool [False, True, True]) [3, 1, 2] 2 ! 0
   \<and> precision_at_n (map of_bool [False, True, True]) [3, 1, 2] 2 ! 0 \<le> 1
   \<and> 0 \<le> precision_at_n (map of_bool [False, True, True]) [3, 1, 2] 2 ! 1
   \<and> precision_at_n (map of_bool [False, True, True]) [3, 1, 2] 2 ! 1 \<le> 1"
proof -
  let ?p = "precision_at_n (map of_bool [False, True, True]) [3, 1, 2] 2"
  have h: "length [False, True, True] = length [3::real, 1, 2]" by simp
  note t = precision_at_n_length_range [OF h, of 2]
  from t have len: "length ?p = 2" by simp
  from t have bounds: "\<forall>x \<in> set ?p. 0 \<le> x \<and> x \<le> 1" by blast
  have "?p ! 0 \<in> set ?p" and "?p ! 1 \<in> set ?p"
    using len by (simp_all del: length_map)
  with bounds len h show ?thesis by blast
qed

text \<open>
  Claim C4 as stated fails for a negative \<open>n_max\<close>: the call succeeds and the length of
  the result, 0, is not \<open>n_max\<close>.
\<close>

theorem precision_at_n_negative_length_counterexample:
  "precision_at_n_call (map of_bool [True]) [1] (- 1) = Inr []
   \<and> int (length (precision_at_n (map of_bool [True]) [1] (- 1))) \<noteq> - 1"
  by (simp add: precision_at_n_call_def precision_at_n_def)

subsection \<open>Ties\<close>

lemma length_filter_mono:
  "(\<And>x. x \<in> set xs \<Longrightarrow> P x \<Longrightarrow> Q x) \<Longrightarrow> length (filter P xs) \<le> length (filter Q xs)"
  by (induction xs) auto

lemma length_filter_split:
  "length (filter P xs) = length (filter P (take k xs)) + length (filter P (drop k xs))"
  by (metis append_take_drop_id filter_append length_append)

lemma length_filter_mset:
  "mset xs = mset ys \<Longrightarrow> length (filter P xs) = length (filter P ys)"
  by (metis mset_filter size_mset)

lemma sorted_take_le_nth:
  assumes "sorted xs" and "k < length xs" and "x \<in> set (take (Suc k) xs)"
  shows "x \<le> xs ! k"
proof -
  from assms(3) obtain i where "i < Suc k" "i < length xs" "x = xs ! i"
    by (auto simp: in_set_conv_nth)
  then show ?thesis using assms(1,2) by (simp add: sorted_nth_mono)
qed

lemma sorted_drop_ge_nth:
  assumes "sorted xs" and "k < length xs" and "x \<in> set (drop (Suc k) xs)"
  shows "xs ! k \<le> x"
proof -
  from assms(3) obtain i where i: "i < length xs - Suc k" "x = xs ! (Suc k + i)"
    by (auto simp: in_set_conv_nth)
  then have "Suc k + i < length xs" by arith
  with i(2) show ?thesis using assms(1) by (simp add: sorted_nth_mono)
qed

lemma sorted_fst_of_sorted:
  fixes qs :: "('a::linorder \<times> 'b::linorder) list"
  assumes "sorted qs"
  shows "sorted (map fst qs)"
proof -
  have "sorted_wrt (\<lambda>x y. fst x \<le> fst y) qs"
    by (rule sorted_wrt_mono_rel [OF _ assms]) (auto simp: less_eq_prod_def)
  then show ?thesis by (simp add: sorted_map)
qed

lemma same_scores:
  fixes qs ps :: "('a::linorder \<times> bool) list"
  assumes "mset ps = mset qs" and "sorted qs" and "sorted (map fst ps)"
  shows "map fst ps = map fst qs"
proof -
  have "mset (map fst ps) = mset (map fst qs)" using assms(1) by simp
  then have "sort (map fst qs) = map fst ps"
    using assms(3) by (rule properties_for_sort)
  moreover have "sort (map fst qs) = map fst qs"
    by (rule sorted_sort_id) (rule sorted_fst_of_sorted [OF assms(2)])
  ultimately show ?thesis by simp
qed

lemma tie_break_minimal:
  fixes qs ps :: "('a::linorder \<times> bool) list"
  assumes perm: "mset ps = mset qs" and sq: "sorted qs" and sp: "sorted (map fst ps)"
  shows "length (filter snd (take k qs)) \<le> length (filter snd (take k ps))"
proof -
  have len: "length ps = length qs" using perm by (metis size_mset)
  show ?thesis
  proof (cases "k = 0 \<or> length qs \<le> k")
    case True
    then show ?thesis using len by (auto simp: length_filter_mset [OF perm])
  next
    case False
    then obtain m where 3: "k = Suc m" "m < length qs"
      by (cases k) auto
    define t where "t = fst (qs ! m)"
    have fst_eq: "map fst ps = map fst qs" by (rule same_scores [OF perm sq sp])
    have "map fst ps ! m = map fst qs ! m" by (simp add: fst_eq)
    then have tp: "fst (ps ! m) = t" using 3(2) len by (simp add: t_def)
    have p_early: "fst x \<le> t" if "x \<in> set (take k ps)" for x
    proof -
      from that have "fst x \<in> set (take (Suc m) (map fst ps))"
        by (simp add: 3(1) take_map)
      from sorted_take_le_nth [OF sp _ this] show ?thesis
        using 3(2) len tp by simp
    qed
    have p_late: "t \<le> fst x" if "x \<in> set (drop k ps)" for x
    proof -
      from that have "fst x \<in> set (drop (Suc m) (map fst ps))"
        by (simp add: 3(1) drop_map)
      from sorted_drop_ge_nth [OF sp _ this] show ?thesis
        using 3(2) len tp by simp
    qed
    have q_early: "x \<le> qs ! m" if "x \<in> set (take k qs)" for x
      using sorted_take_le_nth [OF sq 3(2)] that by (simp add: 3(1))
    have q_late: "qs ! m \<le> x" if "x \<in> set (drop k qs)" for x
      using sorted_drop_ge_nth [OF sq 3(2)] that by (simp add: 3(1))
    show ?thesis
    proof (cases "snd (qs ! m)")
      case False
      let ?A = "\<lambda>x::'a \<times> bool. snd x \<and> fst x < t"
      have "length (filter snd (take k qs)) \<le> length (filter ?A (take k qs))"
      proof (rule length_filter_mono)
        fix x assume "x \<in> set (take k qs)" and "snd x"
        with q_early [of x] False show "snd x \<and> fst x < t"
          by (auto simp: less_eq_prod_def t_def)
      qed
      also have "\<dots> \<le> length (filter ?A qs)"
        using length_filter_split [of ?A qs k] by simp
      also have "\<dots> = length (filter ?A ps)"
        by (rule length_filter_mset [OF perm [symmetric]])
      also have "\<dots> = length (filter ?A (take k ps)) + length (filter ?A (drop k ps))"
        by (rule length_filter_split)
      also have "filter ?A (drop k ps) = []"
      proof -
        have "\<not> ?A x" if "x \<in> set (drop k ps)" for x
          using p_late [OF that] by auto
        then show ?thesis by (auto simp: filter_empty_conv)
      qed
      also have "length (filter ?A (take k ps)) + length ([]::('a \<times> bool) list) \<le> length (filter snd (take k ps))"
        using length_filter_mono [of "take k ps" ?A snd] by simp
      finally show ?thesis .
    next
      case True
      let ?B = "\<lambda>x::'a \<times> bool. \<not> snd x \<and> fst x \<le> t"
      let ?F = "\<lambda>x::'a \<times> bool. \<not> snd x"
      have "length (filter ?F (take k ps)) \<le> length (filter ?B (take k ps))"
        by (rule length_filter_mono) (simp add: p_early)
      also have "\<dots> \<le> length (filter ?B ps)"
        using length_filter_split [of ?B ps k] by simp
      also have "\<dots> = length (filter ?B qs)"
        by (rule length_filter_mset [OF perm])
      also have "\<dots> = length (filter ?B (take k qs)) + length (filter ?B (drop k qs))"
        by (rule length_filter_split)
      also have "filter ?B (drop k qs) = []"
      proof -
        have "\<not> ?B x" if "x \<in> set (drop k qs)" for x
          using q_late [OF that] True by (auto simp: less_eq_prod_def t_def)
        then show ?thesis by (auto simp: filter_empty_conv)
      qed
      also have "length (filter ?B (take k qs)) + length ([]::('a \<times> bool) list) \<le> length (filter ?F (take k qs))"
        using length_filter_mono [of "take k qs" ?B ?F] by simp
      finally have F: "length (filter ?F (take k ps)) \<le> length (filter ?F (take k qs))" .
      have "length (filter snd (take k qs)) + length (filter ?F (take k qs)) = length (take k qs)"
        by (rule sum_length_filter_compl)
      moreover have "length (filter snd (take k ps)) + length (filter ?F (take k ps)) = length (take k ps)"
        by (rule sum_length_filter_compl)
      moreover have "length (take k ps) = length (take k qs)" using len by simp
      ultimately show ?thesis using F by linarith
    qed
  qed
qed

text \<open>
  Claim C10: in the order \<^verbatim>\<open>precision_at_n\<close> ranks by, entries with equal scores
  come with the smaller label first (a non-anomaly before an anomaly). Therefore, at every
  rank, P@n is at most the fraction of anomalies among the first \<open>n\<close> entries of any
  arrangement of the pairs that is ascending by score, and it is that fraction for one such
  arrangement: it is the minimum over the orderings of the ties.
\<close>

theorem precision_at_n_tie_break:
  assumes "length labels = length scores"
  shows "(\<forall>i j. i < j \<and> j < length (sorted_scores_and_truth (map of_bool labels) scores)
            \<and> fst (sorted_scores_and_truth (map of_bool labels) scores ! i)
                = fst (sorted_scores_and_truth (map of_bool labels) scores ! j)
          \<longrightarrow> snd (sorted_scores_and_truth (map of_bool labels) scores ! i)
                \<le> snd (sorted_scores_and_truth (map of_bool labels) scores ! j))
    \<and> (\<forall>(ps :: (real \<times> bool) list) n.
          mset ps = mset (zip scores labels) \<and> sorted (map fst ps)
          \<and> 1 \<le> n \<and> n \<le> (if n_max = 0 then int (length scores) else n_max)
          \<longrightarrow> precision_at_n (map of_bool labels) scores n_max ! nat (n - 1)
                \<le> real (length (filter snd (take (nat n) ps))) / of_int n)
    \<and> (\<exists>ps :: (real \<times> bool) list.
          mset ps = mset (zip scores labels) \<and> sorted (map fst ps)
          \<and> (\<forall>n. 1 \<le> n \<and> n \<le> (if n_max = 0 then int (length scores) else n_max)
                \<longrightarrow> precision_at_n (map of_bool labels) scores n_max ! nat (n - 1)
                      = real (length (filter snd (take (nat n) ps))) / of_int n))"
proof (intro conjI allI impI)
  let ?qs = "sorted_scores_and_truth (map of_bool labels) scores"
  fix i j
  assume a: "i < j \<and> j < length ?qs \<and> fst (?qs ! i) = fst (?qs ! j)"
  have "sorted ?qs" by (simp add: sorted_scores_and_truth_def)
  with a have "?qs ! i \<le> ?qs ! j" by (simp add: sorted_nth_mono)
  with a show "snd (?qs ! i) \<le> snd (?qs ! j)" by (simp add: less_eq_prod_def)
next
  let ?q0 = "sort (zip scores labels)"
  fix ps :: "(real \<times> bool) list" and n :: int
  assume a: "mset ps = mset (zip scores labels) \<and> sorted (map fst ps)
          \<and> 1 \<le> n \<and> n \<le> (if n_max = 0 then int (length scores) else n_max)"
  have "precision_at_n (map of_bool labels) scores n_max ! nat (n - 1)
          = real (length (filter snd (take (nat n) ?q0))) / of_int n"
    using a by (intro precision_at_n_count) simp_all
  moreover have "length (filter snd (take (nat n) ?q0)) \<le> length (filter snd (take (nat n) ps))"
    using a by (intro tie_break_minimal) simp_all
  ultimately show "precision_at_n (map of_bool labels) scores n_max ! nat (n - 1)
                \<le> real (length (filter snd (take (nat n) ps))) / of_int n"
    using a by (simp add: divide_right_mono)
next
  let ?q0 = "sort (zip scores labels)"
  have "mset ?q0 = mset (zip scores labels)" by simp
  moreover have "sorted (map fst ?q0)" by (rule sorted_fst_of_sorted) simp
  moreover have "\<forall>n. 1 \<le> n \<and> n \<le> (if n_max = 0 then int (length scores) else n_max)
                \<longrightarrow> precision_at_n (map of_bool labels) scores n_max ! nat (n - 1)
                      = real (length (filter snd (take (nat n) ?q0))) / of_int n"
    by (intro allI impI precision_at_n_count) simp_all
  ultimately show "\<exists>ps :: (real \<times> bool) list.
          mset ps = mset (zip scores labels) \<and> sorted (map fst ps)
          \<and> (\<forall>n. 1 \<le> n \<and> n \<le> (if n_max = 0 then int (length scores) else n_max)
                \<longrightarrow> precision_at_n (map of_bool labels) scores n_max ! nat (n - 1)
                      = real (length (filter snd (take (nat n) ps))) / of_int n)"
    by blast
qed

theorem precision_at_n_tie_break_witness:
  "sorted_scores_and_truth (map of_bool [True, False]) [1, 1] = [(1, 0), (1, 1)]
   \<and> precision_at_n (map of_bool [True, False]) [1, 1] 0 ! nat (1 - 1)
       \<le> real (length (filter snd (take (nat 1) [(1::real, True), (1, False)]))) / of_int 1
   \<and> precision_at_n (map of_bool [True, False]) [1, 1] 0 = [0, 1 / 2]"
proof -
  have len: "length [True, False] = length [1::real, 1]" by simp
  have hyp: "mset [(1::real, True), (1, False)] = mset (zip [1, 1] [True, False])
      \<and> sorted (map fst [(1::real, True), (1, False)])
      \<and> (1::int) \<le> 1 \<and> (1::int) \<le> (if (0::int) = 0 then int (length [1::real, 1]) else 0)"
    by simp
  from precision_at_n_tie_break [OF len, of 0]
  have "\<forall>(ps :: (real \<times> bool) list) n.
          mset ps = mset (zip [1, 1] [True, False]) \<and> sorted (map fst ps)
          \<and> 1 \<le> n \<and> n \<le> (if (0::int) = 0 then int (length [1::real, 1]) else 0)
          \<longrightarrow> precision_at_n (map of_bool [True, False]) [1, 1] 0 ! nat (n - 1)
                \<le> real (length (filter snd (take (nat n) ps))) / of_int n"
    by blast
  with hyp have "precision_at_n (map of_bool [True, False]) [1, 1] 0 ! nat (1 - 1)
       \<le> real (length (filter snd (take (nat 1) [(1::real, True), (1, False)]))) / of_int 1"
    by blast
  moreover have "sorted_scores_and_truth (map of_bool [True, False]) [1, 1] = [(1, 0), (1, 1)]"
    by (simp add: sorted_scores_and_truth_def)
  moreover have "precision_at_n (map of_bool [True, False]) [1, 1] 0 = [0, 1 / 2]"
    by (simp add: precision_at_n_def is_anomaly_sorted_by_score_def sorted_scores_and_truth_def upto.simps)
  ultimately show ?thesis by blast
qed

section \<open>Properties of the average precision\<close>

text \<open>
  Claim C1: the average precision is the mean of P@n over the anomaly ranks. The code
  passes the unsorted scores with the sorted labels to \<^verbatim>\<open>precision_at_n\<close>, so on
  scores \<open>[2, 3, 1]\<close> with the first point the only anomaly it returns 0, where the mean
  of P@n over the anomaly ranks is 1/2. On the specification's example, whose scores are
  already ascending, it returns \<open>(1 + 2/3) / 2\<close>.
\<close>

theorem custom_average_precision_unsorted_scores:
  "custom_average_precision (map of_bool [True, False, False]) [2, 3, 1] = Inr (Finite 0)
   \<and> spec_average_precision [True, False, False] [2, 3, 1] = 1 / 2
   \<and> custom_average_precision (map of_bool [True, False, True, False])
        [- 0.03598, - 0.033510, - 0.005384, 0.000330] = Inr (Finite ((1 + 2 / 3) / 2))"
  by (simp add: custom_average_precision_def spec_average_precision_def np_multiply_def np_divide_def
      precision_at_n_def is_anomaly_sorted_by_score_def sorted_scores_and_truth_def upto.simps)

lemma weighted_sum_anomaly_ranks:
  fixes p :: "real list"
  shows "sum_list (map2 (*) (map of_bool ls) p) = sum_list (map snd (filter fst (zip ls p)))"
proof (induction ls arbitrary: p)
  case Nil
  then show ?case by simp
next
  case (Cons l ls)
  then show ?case by (cases p) simp_all
qed

text \<open>
  When the pairs are already in ascending order the second sort inside
  \<^verbatim>\<open>precision_at_n\<close> changes nothing, and the code returns the specification's
  average precision.
\<close>

lemma custom_average_precision_ascending_input:
  assumes len: "length labels = length scores"
    and asc: "sorted (zip scores labels)"
    and some: "\<exists>b \<in> set labels. b"
  shows "custom_average_precision (map of_bool labels) scores
           = Inr (Finite (spec_average_precision labels scores))"
proof -
  let ?l = "map of_bool labels :: real list"
  let ?p = "precision_at_n ?l scores 0"
  have pairs: "sorted_scores_and_truth ?l scores = map (\<lambda>p. (fst p, of_bool (snd p))) (zip scores labels)"
    by (rule ranked_labels [OF _ asc]) simp
  have is_anomaly: "map snd (sorted_scores_and_truth ?l scores) = ?l"
    using len by (simp add: pairs comp_def flip: map_map [of of_bool snd, unfolded comp_def])
  have ne: "sorted_scores_and_truth ?l scores \<noteq> []"
    using len some by (auto simp: pairs)
  have mul: "np_multiply ?l ?p = Inr (map2 (*) ?l ?p)"
    using len by (simp add: np_multiply_def length_precision_at_n)
  have "sum_list ?l = real (length (filter id labels))"
    using sum_list_of_bool [of id labels] by simp
  moreover have "0 < length (filter id labels)"
    using some by (auto simp: filter_empty_conv)
  ultimately have pos: "sum_list ?l = real (length (filter id labels))" "sum_list ?l \<noteq> 0"
    by simp_all
  have ranked: "map snd (sort (zip scores labels)) = labels"
    using len by (simp add: sorted_sort_id [OF asc])
  have "custom_average_precision ?l scores = Inr (np_divide (sum_list (map2 (*) ?l ?p)) (sum_list ?l))"
    using ne by (simp add: custom_average_precision_def Let_def is_anomaly mul)
  also have "\<dots> = Inr (Finite (sum_list (map snd (filter fst (zip labels ?p))) / real (length (filter id labels))))"
    using pos by (simp add: np_divide_def weighted_sum_anomaly_ranks)
  also have "\<dots> = Inr (Finite (spec_average_precision labels scores))"
    by (simp add: spec_average_precision_def Let_def ranked)
  finally show ?thesis .
qed

lemma sum_list_all_zero:
  fixes xs :: "real list"
  shows "\<forall>x \<in> set xs. x = 0 \<Longrightarrow> sum_list xs = 0"
  by (induction xs) simp_all

lemma sum_list_products_zero:
  fixes xs ys :: "real list"
  assumes "\<forall>x \<in> set xs. x = 0"
  shows "sum_list (map2 (*) xs ys) = 0"
proof (rule sum_list_all_zero)
  show "\<forall>z \<in> set (map2 (*) xs ys). z = 0"
    using assms by (auto dest: set_zip_leftD)
qed

text \<open>
  Claim C7, as the code has it: on non-empty labels without a true entry
  \<^verbatim>\<open>custom_average_precision\<close> raises nothing and returns nan, the value of numpy's
  \<open>0.0 / 0.0\<close>; on empty input it fails with \<^verbatim>\<open>IndexError\<close>.
\<close>

theorem custom_average_precision_no_anomaly:
  assumes "length labels = length scores" and "labels \<noteq> []" and "\<forall>b \<in> set labels. \<not> b"
  shows "custom_average_precision (map of_bool labels) scores = Inr NaN
    \<and> custom_average_precision [] [] = Inl IndexError"
proof -
  let ?pairs = "sorted_scores_and_truth (map of_bool labels) scores"
  let ?is = "map snd ?pairs"
  have len: "length ?pairs = length scores"
    using assms(1) by (simp add: sorted_scores_and_truth_def)
  then have ne: "?pairs \<noteq> []" using assms(1,2) by auto
  have zero: "\<forall>x \<in> set ?is. x = 0"
  proof
    fix x assume "x \<in> set ?is"
    then have "x \<in> snd ` set (zip scores (map of_bool labels))"
      by (simp add: sorted_scores_and_truth_def)
    then have "x \<in> set (map of_bool labels)"
      by (auto dest: set_zip_rightD)
    with assms(3) show "x = 0" by auto
  qed
  have mul: "np_multiply ?is (precision_at_n ?is scores 0) = Inr (map2 (*) ?is (precision_at_n ?is scores 0))"
    by (simp add: np_multiply_def length_precision_at_n len)
  have "custom_average_precision (map of_bool labels) scores =
        Inr (np_divide (sum_list (map2 (*) ?is (precision_at_n ?is scores 0))) (sum_list ?is))"
    using ne by (simp add: custom_average_precision_def Let_def mul)
  also have "\<dots> = Inr NaN"
    by (simp add: sum_list_products_zero [OF zero] sum_list_all_zero [OF zero] np_divide_def)
  finally have "custom_average_precision (map of_bool labels) scores = Inr NaN" .
  moreover have "custom_average_precision [] [] = Inl IndexError"
    by (simp add: custom_average_precision_def sorted_scores_and_truth_def)
  ultimately show ?thesis by simp
qed

theorem custom_average_precision_no_anomaly_witness:
  "length [False, False] = length [2::real, 1] \<and> [False, False] \<noteq> []
   \<and> custom_average_precision (map of_bool [False, False]) [2, 1] = Inr NaN"
proof -
  have h1: "length [False, False] = length [2::real, 1]" by simp
  have h2: "[False, False] \<noteq> []" by simp
  have h3: "\<forall>b \<in> set [False, False]. \<not> b" by simp
  from custom_average_precision_no_anomaly [OF h1 h2 h3] h1 h2 show ?thesis by blast
qed

text \<open>
  Claim C7 as stated fails: with the single label \<open>False\<close> the call returns nan, it does
  not fail with DivisionUndefined.
\<close>

theorem custom_average_precision_nan_counterexample:
  "custom_average_precision (map of_bool [False]) [1] = Inr NaN
   \<and> custom_average_precision (map of_bool [False]) [1] \<noteq> Inl DivisionUndefined"
  by (simp add: custom_average_precision_def np_multiply_def np_divide_def
      precision_at_n_def is_anomaly_sorted_by_score_def sorted_scores_and_truth_def upto.simps)

section \<open>Properties of the adjusted score\<close>



section \<open>Properties of CUSUM\<close>

lemma high_sum_final_foldl:
  "high_sum_final (foldl (cusum_step mean shift threshold) st data) =
     high_sum_final st @ map fst (spec_running_sums mean shift (high_sum st) (low_sum st) (map snd data))"
  by (induction data arbitrary: st) (simp_all add: cusum_step_def Let_def)

lemma low_sum_final_foldl:
  "low_sum_final (foldl (cusum_step mean shift threshold) st data) =
     low_sum_final st @ map snd (spec_running_sums mean shift (high_sum st) (low_sum st) (map snd data))"
  by (induction data arbitrary: st) (simp_all add: cusum_step_def Let_def)

lemma anomalies_foldl:
  "anomalies (foldl (cusum_step mean shift threshold) st data) =
     anomalies st @ map (anomaly_entry \<circ> fst)
       (filter (spec_is_anomaly threshold \<circ> snd)
          (zip data (spec_running_sums mean shift (high_sum st) (low_sum st) (map snd data))))"
  by (induction data arbitrary: st)
     (simp_all add: cusum_step_def Let_def spec_is_anomaly_def anomaly_entry_def)

lemma length_spec_running_sums [simp]:
  "length (spec_running_sums mean shift h l vs) = length vs"
  by (induction vs arbitrary: h l) (simp_all add: Let_def)

lemma take_spec_running_sums:
  "take i (spec_running_sums mean shift h l vs) = spec_running_sums mean shift h l (take i vs)"
proof (induction vs arbitrary: i h l)
  case Nil
  then show ?case by simp
next
  case (Cons v vs)
  then show ?case by (cases i) (simp_all add: Let_def)
qed

lemma zip_map_fst_snd: "zip (map fst ps) (map snd ps) = ps"
  by (induction ps) simp_all

lemma cusum_eq:
  "cusum data mean shift threshold =
     (map2 (\<lambda>row hl. (fst row, snd row, fst hl, snd hl)) data
        (spec_running_sums mean shift 0 0 (map snd data)),
      map (anomaly_entry \<circ> fst)
        (filter (spec_is_anomaly threshold \<circ> snd)
           (zip data (spec_running_sums mean shift 0 0 (map snd data)))))"
  by (simp add: cusum_def cusum_loop_def assign_cusum_def Let_def high_sum_final_foldl
      low_sum_final_foldl anomalies_foldl cusum_init_def zip_map_fst_snd)

text \<open>
  Claim C5: \<^verbatim>\<open>cusum\<close> processes the points in order from \<open>high_sum = 0\<close> and
  \<open>low_sum = 0\<close> with the specification's update; the returned frame holds the running
  pair of every point of the input, and the anomaly list holds, in order, exactly the
  points whose pair right after the update has \<open>high_sum > threshold\<close> or
  \<open>low_sum < -threshold\<close>.
\<close>

theorem cusum_running_sums:
  "cusum data mean shift threshold =
     (map2 (\<lambda>row hl. (fst row, snd row, fst hl, snd hl)) data
        (spec_running_sums mean shift 0 0 (map snd data)),
      map (anomaly_entry \<circ> fst)
        (filter (spec_is_anomaly threshold \<circ> snd)
           (zip data (spec_running_sums mean shift 0 0 (map snd data)))))
   \<and> length (fst (cusum data mean shift threshold)) = length data"
  by (simp add: cusum_eq)

theorem cusum_running_sums_witness:
  "cusum [(0::nat, 0), (1, 3), (2, 5)] 0 1 1 = ([(0, 0, 0, 0), (1, 3, 2, 0), (2, 5, 6, 0)], [(1, [3]), (2, [5])])"
  using cusum_running_sums [of "[(0::nat, 0), (1, 3), (2, 5)]" 0 1 1]
  by (simp add: spec_is_anomaly_def anomaly_entry_def Let_def)

lemma ball_zip_snd:
  assumes "length xs = length ys"
  shows "(\<forall>p \<in> set (zip xs ys). Q (snd p)) \<longleftrightarrow> (\<forall>y \<in> set ys. Q y)"
proof -
  have "snd ` set (zip xs ys) = set ys"
    using map_snd_zip [OF assms] by (metis set_map)
  then show ?thesis by (metis (no_types, lifting) imageE imageI)
qed

text \<open>
  Claim C6, as the code has it: \<^verbatim>\<open>cusum\<close> never fails, whatever the signs of
  \<open>shift\<close> and \<open>threshold\<close>: the call returns the frame of the running sums and the
  flagged points, computed by the same update with the values given. Its anomaly list is
  empty exactly when no point's running sums cross the threshold.
\<close>

theorem cusum_never_fails:
  "cusum_call data mean shift threshold =
     Inr (map2 (\<lambda>row hl. (fst row, snd row, fst hl, snd hl)) data
            (spec_running_sums mean shift 0 0 (map snd data)),
          map (anomaly_entry \<circ> fst)
            (filter (spec_is_anomaly threshold \<circ> snd)
               (zip data (spec_running_sums mean shift 0 0 (map snd data)))))
   \<and> (snd (cusum data mean shift threshold) = [] \<longleftrightarrow>
        (\<forall>hl \<in> set (spec_running_sums mean shift 0 0 (map snd data)).
           \<not> spec_is_anomaly threshold hl))"
proof -
  let ?rs = "spec_running_sums mean shift 0 0 (map snd data)"
  have "snd (cusum data mean shift threshold) = [] \<longleftrightarrow>
        (\<forall>p \<in> set (zip data ?rs). \<not> spec_is_anomaly threshold (snd p))"
    by (simp add: cusum_eq filter_empty_conv)
  also have "\<dots> \<longleftrightarrow> (\<forall>hl \<in> set ?rs. \<not> spec_is_anomaly threshold hl)"
    by (rule ball_zip_snd) simp
  finally show ?thesis
    by (simp add: cusum_call_def cusum_eq)
qed

theorem cusum_never_fails_witness:
  "cusum_call [(0::nat, 0), (1, 0)] 0 (- 1) 3 = Inr ([(0, 0, 1, - 1), (1, 0, 2, - 2)], [])
   \<and> spec_running_sums 0 (- 1) 0 0 (map snd [(0::nat, 0), (1, 0)]) = [(1, - 1), (2, - 2)]
   \<and> cusum_call [(0::nat, 0), (1, 5)] 0 1 (- 1) = Inr ([(0, 0, 0, 0), (1, 5, 4, 0)], [(0, [0]), (1, [5])])"
  using cusum_never_fails [of "[(0::nat, 0), (1, 0)]" 0 "- 1" 3]
    cusum_never_fails [of "[(0::nat, 0), (1, 5)]" 0 1 "- 1"]
  by (simp add: spec_is_anomaly_def anomaly_entry_def Let_def)

text \<open>
  Claim C6 as stated fails: with a negative shift, and with a negative threshold, the
  call returns a frame and an anomaly list.
\<close>

theorem cusum_negative_shift_counterexample:
  "cusum_call [(0::nat, 1)] 0 (- 1) 0 = Inr ([(0, 1, 2, 0)], [(0, [1])])
   \<and> cusum_call [(0::nat, 1)] 0 0 (- 1) = Inr ([(0, 1, 1, 0)], [(0, [1])])"
  by (simp add: cusum_call_def cusum_def cusum_loop_def cusum_step_def cusum_init_def assign_cusum_def)

lemma cusum_rows_take:
  "take i (fst (cusum data mean shift threshold)) = fst (cusum (take i data) mean shift threshold)"
  by (simp add: cusum_eq take_map take_zip take_spec_running_sums)

lemma cusum_anomalies_take:
  "\<exists>r. snd (cusum data mean shift threshold) = snd (cusum (take i data) mean shift threshold) @ r
       \<and> subseq r (map anomaly_entry (drop i data))"
proof -
  let ?rs = "spec_running_sums mean shift 0 0 (map snd data)"
  let ?P = "spec_is_anomaly threshold \<circ> snd"
  let ?late = "zip (drop i data) (drop i ?rs)"
  let ?r = "map (anomaly_entry \<circ> fst) (filter ?P ?late)"
  have split: "zip data ?rs = zip (take i data) (take i ?rs) @ ?late"
    by (metis append_take_drop_id take_zip drop_zip)
  have early: "take i ?rs = spec_running_sums mean shift 0 0 (map snd (take i data))"
    by (simp add: take_spec_running_sums take_map)
  have "snd (cusum data mean shift threshold) = map (anomaly_entry \<circ> fst) (filter ?P (zip data ?rs))"
    by (simp add: cusum_eq)
  also have "\<dots> = map (anomaly_entry \<circ> fst) (filter ?P (zip (take i data) (take i ?rs))) @ ?r"
    by (simp only: split filter_append map_append)
  also have "\<dots> = snd (cusum (take i data) mean shift threshold) @ ?r"
    by (simp add: cusum_eq early)
  finally have eq: "snd (cusum data mean shift threshold) = snd (cusum (take i data) mean shift threshold) @ ?r" .
  have "subseq (map fst (filter ?P ?late)) (map fst ?late)"
    by (intro subseq_map subseq_filter_left)
  moreover have "map fst ?late = drop i data"
    by simp
  ultimately have "subseq (map anomaly_entry (map fst (filter ?P ?late))) (map anomaly_entry (drop i data))"
    by (metis subseq_map)
  then have "subseq ?r (map anomaly_entry (drop i data))"
    by simp
  with eq show ?thesis by blast
qed

text \<open>
  Claim C9: \<^verbatim>\<open>cusum\<close> is prefix-determined. For two series that agree on their
  first \<open>i\<close> points the first \<open>i\<close> rows of the returned frames (values and running sums)
  are the same, and both anomaly lists start with the anomalies of the common prefix, all
  further entries coming from later points.
\<close>

theorem cusum_prefix_determined:
  assumes "take i series1 = take i series2"
  shows "take i (fst (cusum series1 mean shift threshold)) = take i (fst (cusum series2 mean shift threshold))
    \<and> (\<exists>r1 r2.
          snd (cusum series1 mean shift threshold) = snd (cusum (take i series1) mean shift threshold) @ r1
        \<and> snd (cusum series2 mean shift threshold) = snd (cusum (take i series1) mean shift threshold) @ r2
        \<and> subseq r1 (map anomaly_entry (drop i series1))
        \<and> subseq r2 (map anomaly_entry (drop i series2)))"
proof -
  have rows: "take i (fst (cusum series1 mean shift threshold)) = take i (fst (cusum series2 mean shift threshold))"
    by (simp add: cusum_rows_take assms)
  obtain r1 where r1: "snd (cusum series1 mean shift threshold) = snd (cusum (take i series1) mean shift threshold) @ r1"
      "subseq r1 (map anomaly_entry (drop i series1))"
    using cusum_anomalies_take [of series1 mean shift threshold i] by blast
  obtain r2 where r2: "snd (cusum series2 mean shift threshold) = snd (cusum (take i series2) mean shift threshold) @ r2"
      "subseq r2 (map anomaly_entry (drop i series2))"
    using cusum_anomalies_take [of series2 mean shift threshold i] by blast
  from r2 have "snd (cusum series2 mean shift threshold) = snd (cusum (take i series1) mean shift threshold) @ r2"
    by (simp add: assms)
  with rows r1 r2(2) show ?thesis by blast
qed

theorem cusum_prefix_determined_witness:
  "take 2 [(0::nat, 0), (1, 3), (2, 5)] = take 2 [(0, 0), (1, 3), (2, - 4), (3, 0)]
   \<and> take 2 (fst (cusum [(0::nat, 0), (1, 3), (2, 5)] 0 1 1))
       = take 2 (fst (cusum [(0::nat, 0), (1, 3), (2, - 4), (3, 0)] 0 1 1))
   \<and> take 2 (fst (cusum [(0::nat, 0), (1, 3), (2, 5)] 0 1 1)) = [(0, 0, 0, 0), (1, 3, 2, 0)]
   \<and> snd (cusum [(0::nat, 0), (1, 3), (2, 5)] 0 1 1) = [(1, [3]), (2, [5])]
   \<and> snd (cusum [(0::nat, 0), (1, 3), (2, - 4), (3, 0)] 0 1 1) = [(1, [3]), (2, [- 4]), (3, [0])]"
proof -
  have h: "take 2 [(0::nat, 0::real), (1, 3), (2, 5)] = take 2 [(0, 0), (1, 3), (2, - 4), (3, 0)]"
    by simp
  have "cusum [(0::nat, 0), (1, 3), (2, 5)] 0 1 1
          = ([(0, 0, 0, 0), (1, 3, 2, 0), (2, 5, 6, 0)], [(1, [3]), (2, [5])])"
    by (simp add: cusum_def cusum_loop_def cusum_step_def cusum_init_def assign_cusum_def Let_def)
  moreover have "snd (cusum [(0::nat, 0), (1, 3), (2, - 4), (3, 0)] 0 1 1) = [(1, [3]), (2, [- 4]), (3, [0])]"
    by (simp add: cusum_def cusum_loop_def cusum_step_def cusum_init_def assign_cusum_def Let_def)
  ultimately show ?thesis
    using cusum_prefix_determined [OF h, of 0 1 1] h by simp
qed

end
